theory Spec2Isabelle
  imports Main "HOL-Library.Word"
begin

section \<open>NumPy arrays in a store\<close>

text \<open>
  The four scripts compute the product of a two-dimensional integer array with its own
  transpose. The arrays are NumPy arrays of dtype \<open>int64\<close> (the default of
  \<open>Generator.integers\<close> and of \<open>dtype=int\<close>): their arithmetic wraps around
  modulo \<open>2 ^ 64\<close>, and \<open>sint\<close> reads an element as the signed integer NumPy shows.

  A two-dimensional array object is a descriptor (buffer address, shape, strides counted
  in elements) over a flat buffer held in a store; the store is a list of buffers and an
  address is an index into it. A transpose is a view: the same buffer with shape and
  strides swapped. One-dimensional temporaries (a row, an elementwise product, a sum
  along an axis) are never aliased or written to and are plain lists of elements.
  Buffers are never freed: garbage collection is not part of the model.
\<close>

type_synonym int64 = "64 word"

datatype error = IndexError | ValueError

record ndarray =
  base :: nat
  shape0 :: nat
  shape1 :: nat
  stride0 :: nat
  stride1 :: nat

type_synonym heap = "int64 list list"

definition and_then :: "error + 'a \<Rightarrow> ('a \<Rightarrow> error + 'b) \<Rightarrow> error + 'b" where
  "and_then m f = (case m of Inl e \<Rightarrow> Inl e | Inr x \<Rightarrow> f x)"

definition offset :: "ndarray \<Rightarrow> nat \<Rightarrow> nat \<Rightarrow> nat" where
  "offset a i j = i * stride0 a + j * stride1 a"

definition entry :: "heap \<Rightarrow> ndarray \<Rightarrow> nat \<Rightarrow> nat \<Rightarrow> int64" where
  "entry h a i j = h ! base a ! offset a i j"

text \<open>
  An array is well formed in a store when its buffer exists and every index inside its
  shape addresses an element of that buffer. Arrays with no rows or no columns are
  well formed.
\<close>

definition well_formed :: "heap \<Rightarrow> ndarray \<Rightarrow> bool" where
  "well_formed h a \<longleftrightarrow>
     base a < length h \<and>
     (\<forall>i \<in> {..<shape0 a}. \<forall>j \<in> {..<shape1 a}. offset a i j < length (h ! base a))"

text \<open>\<open>a.tolist()\<close>: the elements of an array, row by row.\<close>

definition tolist :: "heap \<Rightarrow> ndarray \<Rightarrow> int64 list list" where
  "tolist h a = map (\<lambda>i. map (\<lambda>j. entry h a i j) [0..<shape1 a]) [0..<shape0 a]"

text \<open>The buffer of a C-contiguous \<open>r \<times> c\<close> array whose element \<open>(i, j)\<close> is \<open>f i j\<close>.\<close>

definition row_major :: "nat \<Rightarrow> nat \<Rightarrow> (nat \<Rightarrow> nat \<Rightarrow> int64) \<Rightarrow> int64 list" where
  "row_major r c f = concat (map (\<lambda>i. map (\<lambda>j. f i j) [0..<c]) [0..<r])"

definition alloc :: "heap \<Rightarrow> int64 list \<Rightarrow> nat \<Rightarrow> nat \<Rightarrow> heap \<times> ndarray" where
  "alloc h buf r c =
     (h @ [buf], \<lparr>base = length h, shape0 = r, shape1 = c, stride0 = c, stride1 = 1\<rparr>)"

text \<open>\<open>np.zeros((r, c), dtype=int)\<close>.\<close>

definition np_zeros :: "heap \<Rightarrow> nat \<Rightarrow> nat \<Rightarrow> heap \<times> ndarray" where
  "np_zeros h r c = alloc h (replicate (r * c) 0) r c"

text \<open>
  \<open>np.empty((r, c), dtype=int)\<close>: the buffer is not initialised. Whatever the
  allocator left there is the parameter \<open>junk\<close>, one value for each position.
\<close>

definition np_empty :: "(nat \<Rightarrow> int64) \<Rightarrow> heap \<Rightarrow> nat \<Rightarrow> nat \<Rightarrow> heap \<times> ndarray" where
  "np_empty junk h r c = alloc h (map junk [0..<r * c]) r c"

text \<open>\<open>a.T\<close>: a view on the buffer of \<open>a\<close>.\<close>

definition transpose_view :: "ndarray \<Rightarrow> ndarray" where
  "transpose_view a =
     \<lparr>base = base a, shape0 = shape1 a, shape1 = shape0 a,
      stride0 = stride1 a, stride1 = stride0 a\<rparr>"

text \<open>\<open>a[i, j]\<close> and \<open>a[i, j] = v\<close>, with NumPy's check of the indices against the shape.\<close>

definition getitem :: "heap \<Rightarrow> ndarray \<Rightarrow> nat \<Rightarrow> nat \<Rightarrow> error + int64" where
  "getitem h a i j =
     (if i < shape0 a \<and> j < shape1 a then Inr (entry h a i j) else Inl IndexError)"

definition setitem :: "heap \<Rightarrow> ndarray \<Rightarrow> nat \<Rightarrow> nat \<Rightarrow> int64 \<Rightarrow> error + heap" where
  "setitem h a i j v =
     (if i < shape0 a \<and> j < shape1 a
      then Inr (h[base a := (h ! base a)[offset a i j := v]])
      else Inl IndexError)"

text \<open>\<open>a[i]\<close> and \<open>a[:, j]\<close>, read as one-dimensional values.\<close>

definition getrow :: "heap \<Rightarrow> ndarray \<Rightarrow> nat \<Rightarrow> error + int64 list" where
  "getrow h a i =
     (if i < shape0 a then Inr (map (\<lambda>j. entry h a i j) [0..<shape1 a]) else Inl IndexError)"

definition getcol :: "heap \<Rightarrow> ndarray \<Rightarrow> nat \<Rightarrow> error + int64 list" where
  "getcol h a j =
     (if j < shape1 a then Inr (map (\<lambda>i. entry h a i j) [0..<shape0 a]) else Inl IndexError)"

text \<open>
  \<open>x * y\<close> on one-dimensional arrays: elementwise, a length of 1 is broadcast, any other
  mismatch of the lengths is a \<open>ValueError\<close>.
\<close>

definition multiply1 :: "int64 list \<Rightarrow> int64 list \<Rightarrow> error + int64 list" where
  "multiply1 xs ys =
     (if length xs = length ys then Inr (map (\<lambda>k. xs ! k * ys ! k) [0..<length xs])
      else if length xs = 1 then Inr (map (\<lambda>k. xs ! 0 * ys ! k) [0..<length ys])
      else if length ys = 1 then Inr (map (\<lambda>k. xs ! k * ys ! 0) [0..<length xs])
      else Inl ValueError)"

text \<open>\<open>np.sum(x)\<close> of a one-dimensional array.\<close>

definition np_sum :: "int64 list \<Rightarrow> int64" where
  "np_sum xs = sum_list xs"

text \<open>
  \<open>x[:, np.newaxis] * t\<close>: the column vector \<open>x\<close> (shape \<open>(n, 1)\<close>) times the
  two-dimensional array \<open>t\<close>, broadcast along the columns of \<open>t\<close>; the product is a
  new array.
\<close>

definition multiply_column :: "heap \<Rightarrow> int64 list \<Rightarrow> ndarray \<Rightarrow> error + heap \<times> ndarray" where
  "multiply_column h x t =
     (if length x = shape0 t
      then Inr (alloc h (row_major (shape0 t) (shape1 t) (\<lambda>k j. x ! k * entry h t k j))
                  (shape0 t) (shape1 t))
      else if length x = 1
      then Inr (alloc h (row_major (shape0 t) (shape1 t) (\<lambda>k j. x ! 0 * entry h t k j))
                  (shape0 t) (shape1 t))
      else if shape0 t = 1
      then Inr (alloc h (row_major (length x) (shape1 t) (\<lambda>k j. x ! k * entry h t 0 j))
                  (length x) (shape1 t))
      else Inl ValueError)"

text \<open>\<open>np.sum(t, axis=0)\<close>: one sum for each column of \<open>t\<close>.\<close>

definition np_sum_axis0 :: "heap \<Rightarrow> ndarray \<Rightarrow> int64 list" where
  "np_sum_axis0 h t = map (\<lambda>j. sum_list (map (\<lambda>k. entry h t k j) [0..<shape0 t])) [0..<shape1 t]"

text \<open>\<open>a[i] = x\<close>: the row is overwritten element by element; a single value is broadcast.\<close>

definition setrow :: "heap \<Rightarrow> ndarray \<Rightarrow> nat \<Rightarrow> int64 list \<Rightarrow> error + heap" where
  "setrow h a i x =
     (if \<not> i < shape0 a then Inl IndexError
      else if length x = shape1 a
      then Inr (h[base a := fold (\<lambda>j b. b[offset a i j := x ! j]) [0..<shape1 a] (h ! base a)])
      else if length x = 1
      then Inr (h[base a := fold (\<lambda>j b. b[offset a i j := x ! 0]) [0..<shape1 a] (h ! base a)])
      else Inl ValueError)"

text \<open>\<open>a @ b\<close>: the matrix product, a new array; the inner dimensions must agree.\<close>

definition matmul :: "heap \<Rightarrow> ndarray \<Rightarrow> ndarray \<Rightarrow> error + heap \<times> ndarray" where
  "matmul h a b =
     (if shape1 a \<noteq> shape0 b then Inl ValueError
      else Inr (alloc h
             (row_major (shape0 a) (shape1 b)
                (\<lambda>i j. sum_list (map (\<lambda>k. entry h a i k * entry h b k j) [0..<shape1 a])))
             (shape0 a) (shape1 b)))"

section \<open>Loops\<close>

text \<open>\<open>for i in range(n): body\<close>, the loop body acting on the store; an error ends the loop.\<close>

fun for_loop :: "nat list \<Rightarrow> (nat \<Rightarrow> 's \<Rightarrow> error + 's) \<Rightarrow> 's \<Rightarrow> error + 's" where
  "for_loop [] body s = Inr s"
| "for_loop (i # rest) body s = and_then (body i s) (for_loop rest body)"

definition py_range :: "nat \<Rightarrow> nat list" where
  "py_range n = [0..<n]"

section \<open>The four variants of \<open>my_func\<close>\<close>

text \<open>\<open>optimization/script_mprof.py\<close>: three nested loops over a zeroed result.\<close>

definition script_mprof_my_func :: "heap \<Rightarrow> ndarray \<Rightarrow> error + heap \<times> ndarray" where
  "script_mprof_my_func h input_array =
     (let nrow = shape0 input_array;
          ncol = shape1 input_array;
          (h0, result) = np_zeros h nrow nrow
      in and_then
           (for_loop (py_range nrow) (\<lambda>rix.
              for_loop (py_range nrow) (\<lambda>cix.
                for_loop (py_range ncol) (\<lambda>eix s.
                  and_then (getitem s result rix cix) (\<lambda>acc.
                  and_then (getitem s input_array rix eix) (\<lambda>x.
                  and_then (getitem s (transpose_view input_array) eix cix) (\<lambda>y.
                  setitem s result rix cix (acc + x * y))))))) h0)
           (\<lambda>s. Inr (s, result)))"

text \<open>\<open>optimization/script_bcast_mprof.py\<close>: one broadcast product and one reduction for each row.\<close>

definition script_bcast_mprof_my_func :: "heap \<Rightarrow> ndarray \<Rightarrow> error + heap \<times> ndarray" where
  "script_bcast_mprof_my_func h input_array =
     (let nrow = shape0 input_array;
          ncol = shape1 input_array;
          (h0, result) = np_zeros h nrow nrow
      in and_then
           (for_loop (py_range nrow) (\<lambda>rix s.
              and_then (getrow s input_array rix) (\<lambda>x.
              and_then (multiply_column s x (transpose_view input_array)) (\<lambda>(s', prod).
              setrow s' result rix (np_sum_axis0 s' prod)))) h0)
           (\<lambda>s. Inr (s, result)))"

text \<open>
  \<open>optimization/script_dot.py\<close>: the matrix product operator, on \<open>int64\<close> input (unlike
  the other variants it has no \<open>dtype=int\<close> result: see \<open>script_dot_my_func_dtype\<close> below).
\<close>

definition script_dot_my_func :: "heap \<Rightarrow> ndarray \<Rightarrow> error + heap \<times> ndarray" where
  "script_dot_my_func h input_array = matmul h input_array (transpose_view input_array)"

text \<open>
  \<open>my_script.py\<close> (the variant that prints): two nested loops over an uninitialised
  result, each cell assigned the sum of an elementwise product.
\<close>

definition my_script_my_func :: "(nat \<Rightarrow> int64) \<Rightarrow> heap \<Rightarrow> ndarray \<Rightarrow> error + heap \<times> ndarray" where
  "my_script_my_func junk h input_array =
     (let nrow = shape0 input_array;
          (h0, result) = np_empty junk h nrow nrow
      in and_then
           (for_loop (py_range nrow) (\<lambda>rix.
              for_loop (py_range nrow) (\<lambda>cix s.
                and_then (getrow s input_array rix) (\<lambda>x.
                and_then (getcol s (transpose_view input_array) cix) (\<lambda>y.
                and_then (multiply1 x y) (\<lambda>p.
                setitem s result rix cix (np_sum p)))))) h0)
           (\<lambda>s. Inr (s, result)))"

section \<open>Input of a narrower integer dtype\<close>

text \<open>
  The definitions above are the four variants on \<open>int64\<close> input, the dtype of the array
  the scripts generate. The variants do not treat a narrower signed integer dtype alike:
  a product of two elements of the input is computed in the input's dtype, but the loops
  and the reduction accumulate in the \<open>dtype=int\<close> result, that is in \<open>int64\<close>, while
  \<open>@\<close> computes and returns in the input's dtype throughout.

  An array of dtype \<open>d\<close> holds, in this store, the sign-extended value of each of its
  elements, and \<open>wrap d\<close> reduces a value to the signed range of \<open>d\<close>.
\<close>

datatype dtype = Int8 | Int16 | Int32 | Int64

fun bits :: "dtype \<Rightarrow> nat" where
  "bits Int8 = 8"
| "bits Int16 = 16"
| "bits Int32 = 32"
| "bits Int64 = 64"

definition wrap :: "dtype \<Rightarrow> int64 \<Rightarrow> int64" where
  "wrap d v = signed_take_bit (bits d - 1) v"

text \<open>
  The elements of an array lie in the range of the dtype.
\<close>

definition in_dtype :: "dtype \<Rightarrow> heap \<Rightarrow> ndarray \<Rightarrow> bool" where
  "in_dtype d h a \<longleftrightarrow>
     (\<forall>i \<in> {..<shape0 a}. \<forall>j \<in> {..<shape1 a}. wrap d (entry h a i j) = entry h a i j)"

text \<open>
  \<open>x[:, np.newaxis] * t\<close> for operands of dtype \<open>d\<close>: the products are of dtype \<open>d\<close>.
\<close>

definition multiply_column_dtype ::
  "dtype \<Rightarrow> heap \<Rightarrow> int64 list \<Rightarrow> ndarray \<Rightarrow> error + heap \<times> ndarray" where
  "multiply_column_dtype d h x t =
     (if length x = shape0 t
      then Inr (alloc h (row_major (shape0 t) (shape1 t) (\<lambda>k j. wrap d (x ! k * entry h t k j)))
                  (shape0 t) (shape1 t))
      else if length x = 1
      then Inr (alloc h (row_major (shape0 t) (shape1 t) (\<lambda>k j. wrap d (x ! 0 * entry h t k j)))
                  (shape0 t) (shape1 t))
      else if shape0 t = 1
      then Inr (alloc h (row_major (length x) (shape1 t) (\<lambda>k j. wrap d (x ! k * entry h t 0 j)))
                  (length x) (shape1 t))
      else Inl ValueError)"

text \<open>
  \<open>a @ b\<close> for operands of dtype \<open>d\<close>: products and sums are of dtype \<open>d\<close>.
\<close>

definition matmul_dtype :: "dtype \<Rightarrow> heap \<Rightarrow> ndarray \<Rightarrow> ndarray \<Rightarrow> error + heap \<times> ndarray" where
  "matmul_dtype d h a b =
     (if shape1 a \<noteq> shape0 b then Inl ValueError
      else Inr (alloc h
             (row_major (shape0 a) (shape1 b)
                (\<lambda>i j. wrap d (sum_list
                   (map (\<lambda>k. wrap d (entry h a i k * entry h b k j)) [0..<shape1 a]))))
             (shape0 a) (shape1 b)))"

text \<open>
  \<open>optimization/script_mprof.py\<close>: the product of the two elements is of the input's
  dtype, the sum is taken in the \<open>int64\<close> result.
\<close>

definition script_mprof_my_func_dtype ::
  "dtype \<Rightarrow> heap \<Rightarrow> ndarray \<Rightarrow> error + heap \<times> ndarray" where
  "script_mprof_my_func_dtype d h input_array =
     (let nrow = shape0 input_array;
          ncol = shape1 input_array;
          (h0, result) = np_zeros h nrow nrow
      in and_then
           (for_loop (py_range nrow) (\<lambda>rix.
              for_loop (py_range nrow) (\<lambda>cix.
                for_loop (py_range ncol) (\<lambda>eix s.
                  and_then (getitem s result rix cix) (\<lambda>acc.
                  and_then (getitem s input_array rix eix) (\<lambda>x.
                  and_then (getitem s (transpose_view input_array) eix cix) (\<lambda>y.
                  setitem s result rix cix (acc + wrap d (x * y)))))))) h0)
           (\<lambda>s. Inr (s, result)))"

text \<open>
  \<open>optimization/script_bcast_mprof.py\<close>: the broadcast product is of the input's dtype;
  \<open>np.sum\<close> adds integers narrower than the default integer in \<open>int64\<close>.
\<close>

definition script_bcast_mprof_my_func_dtype ::
  "dtype \<Rightarrow> heap \<Rightarrow> ndarray \<Rightarrow> error + heap \<times> ndarray" where
  "script_bcast_mprof_my_func_dtype d h input_array =
     (let nrow = shape0 input_array;
          ncol = shape1 input_array;
          (h0, result) = np_zeros h nrow nrow
      in and_then
           (for_loop (py_range nrow) (\<lambda>rix s.
              and_then (getrow s input_array rix) (\<lambda>x.
              and_then (multiply_column_dtype d s x (transpose_view input_array)) (\<lambda>(s', prod).
              setrow s' result rix (np_sum_axis0 s' prod)))) h0)
           (\<lambda>s. Inr (s, result)))"

text \<open>
  \<open>optimization/script_dot.py\<close>: the result has the input's dtype.
\<close>

definition script_dot_my_func_dtype ::
  "dtype \<Rightarrow> heap \<Rightarrow> ndarray \<Rightarrow> error + heap \<times> ndarray" where
  "script_dot_my_func_dtype d h input_array =
     matmul_dtype d h input_array (transpose_view input_array)"

section \<open>The product with the transpose\<close>

text \<open>
  Element \<open>(i, j)\<close> of the product of \<open>a\<close> with its transpose, in \<open>int64\<close> arithmetic, and
  the same sum over the mathematical integers.
\<close>

definition gram :: "heap \<Rightarrow> ndarray \<Rightarrow> nat \<Rightarrow> nat \<Rightarrow> int64" where
  "gram h a i j = (\<Sum>k \<in> {..<shape1 a}. entry h a i k * entry h a j k)"

definition gram_int :: "heap \<Rightarrow> ndarray \<Rightarrow> nat \<Rightarrow> nat \<Rightarrow> int" where
  "gram_int h a i j = (\<Sum>k \<in> {..<shape1 a}. sint (entry h a i k) * sint (entry h a j k))"

definition gram_result :: "heap \<Rightarrow> ndarray \<Rightarrow> ndarray" where
  "gram_result h a =
     \<lparr>base = length h, shape0 = shape0 a, shape1 = shape0 a, stride0 = shape0 a, stride1 = 1\<rparr>"

definition gram_buffer :: "heap \<Rightarrow> ndarray \<Rightarrow> int64 list" where
  "gram_buffer h a = row_major (shape0 a) (shape0 a) (gram h a)"

text \<open>The elements of the product, row by row.\<close>

definition gram_matrix :: "heap \<Rightarrow> ndarray \<Rightarrow> int64 list list" where
  "gram_matrix h a = map (\<lambda>i. map (\<lambda>j. gram h a i j) [0..<shape0 a]) [0..<shape0 a]"

text \<open>
  The result buffer while the loops run: the first \<open>n\<close> cells, in row-major order, hold
  their final value, the others still hold what the allocation left there.
\<close>

definition filled :: "heap \<Rightarrow> ndarray \<Rightarrow> (nat \<Rightarrow> int64) \<Rightarrow> nat \<Rightarrow> int64 list" where
  "filled h a init n =
     map (\<lambda>p. if p < n then gram h a (p div shape0 a) (p mod shape0 a) else init p)
       [0..<shape0 a * shape0 a]"

section \<open>What a call returns\<close>

text \<open>
  The shape, one element and all elements of the array a call returns; \<open>None\<close> when the
  call raised (and, for an element, when the index is outside the shape).
\<close>

definition result_shape :: "error + heap \<times> ndarray \<Rightarrow> (nat \<times> nat) option" where
  "result_shape res = (case res of Inl e \<Rightarrow> None | Inr (s, r) \<Rightarrow> Some (shape0 r, shape1 r))"

definition result_entry :: "error + heap \<times> ndarray \<Rightarrow> nat \<Rightarrow> nat \<Rightarrow> int64 option" where
  "result_entry res i j =
     (case res of
        Inl e \<Rightarrow> None
      | Inr (s, r) \<Rightarrow> (case getitem s r i j of Inl e \<Rightarrow> None | Inr v \<Rightarrow> Some v))"

definition result_list :: "error + heap \<times> ndarray \<Rightarrow> int64 list list option" where
  "result_list res = (case res of Inl e \<Rightarrow> None | Inr (s, r) \<Rightarrow> Some (tolist s r))"

text \<open>
  The three strategies of the \<open>optimization\<close> scripts, and all four variants of
  \<open>my_func\<close>.
\<close>

definition strategies :: "(heap \<Rightarrow> ndarray \<Rightarrow> error + heap \<times> ndarray) list" where
  "strategies = [script_mprof_my_func, script_bcast_mprof_my_func, script_dot_my_func]"

definition variants :: "(nat \<Rightarrow> int64) \<Rightarrow> (heap \<Rightarrow> ndarray \<Rightarrow> error + heap \<times> ndarray) list" where
  "variants junk = strategies @ [my_script_my_func junk]"

section \<open>A small example\<close>

text \<open>A store holding one \<open>2 \<times> 3\<close> array with the rows \<open>1, 2, 3\<close> and \<open>4, 5, 6\<close>.\<close>

definition example_store :: heap where
  "example_store = [[1, 2, 3, 4, 5, 6]]"

definition example_array :: ndarray where
  "example_array = \<lparr>base = 0, shape0 = 2, shape1 = 3, stride0 = 3, stride1 = 1\<rparr>"

text \<open>An array with two rows and no columns, over an empty buffer.\<close>

definition empty_columns_array :: ndarray where
  "empty_columns_array = \<lparr>base = 0, shape0 = 2, shape1 = 0, stride0 = 0, stride1 = 1\<rparr>"

text \<open>
  An array of dtype \<open>int8\<close> with the single row \<open>9, 9\<close> (over the store \<open>[[9, 9]]\<close>).
\<close>

definition int8_row :: ndarray where
  "int8_row = \<lparr>base = 0, shape0 = 1, shape1 = 2, stride0 = 2, stride1 = 1\<rparr>"

section \<open>Sequencing and loops\<close>

lemma and_then_Inr: "and_then (Inr x) f = f x"
  by (simp add: and_then_def)

lemma and_then_Inl: "and_then (Inl e) f = Inl e"
  by (simp add: and_then_def)

lemma for_loop_snoc: "for_loop (xs @ [i]) body s = and_then (for_loop xs body s) (body i)"
proof (induction xs arbitrary: s)
  case Nil
  show ?case by (cases "body i s") (simp_all add: and_then_def)
next
  case (Cons x xs)
  show ?case by (cases "body x s") (simp_all add: and_then_def Cons.IH)
qed

lemma for_loop_range:
  assumes init: "P 0 s"
    and step: "\<And>i t. i < n \<Longrightarrow> P i t \<Longrightarrow> \<exists>t'. body i t = Inr t' \<and> P (Suc i) t'"
  shows "\<exists>t. for_loop (py_range n) body s = Inr t \<and> P n t"
  using step
proof (induction n)
  case 0
  show ?case using init by (simp add: py_range_def)
next
  case (Suc n)
  have "\<exists>t. for_loop (py_range n) body s = Inr t \<and> P n t"
    by (rule Suc.IH) (simp add: Suc.prems)
  then obtain t where t: "for_loop (py_range n) body s = Inr t" "P n t"
    by blast
  from Suc.prems [of n t] t(2) obtain t' where t': "body n t = Inr t'" "P (Suc n) t'"
    by auto
  have "for_loop (py_range (Suc n)) body s = Inr t'"
    using t(1) t'(1) by (simp add: py_range_def for_loop_snoc and_then_Inr)
  with t'(2) show ?case by blast
qed

lemma for_loop_steps:
  assumes "\<And>i. i < n \<Longrightarrow> body i (F i) = Inr (F (Suc i))"
  shows "for_loop (py_range n) body (F 0) = Inr (F n)"
proof -
  have "\<exists>t. for_loop (py_range n) body (F 0) = Inr t \<and> t = F n"
    by (rule for_loop_range [where P = "\<lambda>i t. t = F i"]) (simp_all add: assms)
  then show ?thesis by simp
qed

section \<open>Row-major buffers\<close>

lemma length_row_major: "length (row_major r c f) = r * c"
  by (induction r) (simp_all add: row_major_def)

lemma row_major_Suc:
  "row_major (Suc r) c f = row_major r c f @ map (\<lambda>j. f r j) [0..<c]"
  by (simp add: row_major_def)

lemma row_major_nth:
  "j < c \<Longrightarrow> i < r \<Longrightarrow> row_major r c f ! (i * c + j) = f i j"
proof (induction r)
  case 0
  then show ?case by simp
next
  case (Suc r)
  show ?case
  proof (cases "i < r")
    case True
    have "i * c + j < r * c"
    proof -
      have "i * c + j < i * c + c" using Suc.prems(1) by simp
      also have "\<dots> = Suc i * c" by simp
      also have "\<dots> \<le> r * c" using True by (intro mult_le_mono1) simp
      finally show ?thesis .
    qed
    then show ?thesis
      using Suc.IH [OF Suc.prems(1) True]
      by (simp add: row_major_Suc nth_append length_row_major)
  next
    case False
    with Suc.prems have "i = r" by simp
    then show ?thesis
      using Suc.prems(1) by (simp add: row_major_Suc nth_append length_row_major)
  qed
qed

lemma cell_index_less: "i < r \<Longrightarrow> j < c \<Longrightarrow> i * c + j < r * (c::nat)"
proof -
  assume a: "i < r" "j < c"
  have "i * c + j < i * c + c" using a(2) by simp
  also have "\<dots> = Suc i * c" by simp
  also have "\<dots> \<le> r * c" using a(1) by (intro mult_le_mono1) simp
  finally show ?thesis .
qed

lemma row_major_flat:
  "row_major r c f = map (\<lambda>p. f (p div c) (p mod c)) [0..<r * c]"
proof (rule nth_equalityI)
  show "length (row_major r c f) = length (map (\<lambda>p. f (p div c) (p mod c)) [0..<r * c])"
    by (simp add: length_row_major)
next
  fix p assume "p < length (row_major r c f)"
  then have p: "p < r * c" by (simp add: length_row_major)
  then have c: "0 < c" by (cases c) simp_all
  have i: "p div c < r" using p c by (simp add: less_mult_imp_div_less)
  have j: "p mod c < c" using c by simp
  have "row_major r c f ! (p div c * c + p mod c) = f (p div c) (p mod c)"
    by (rule row_major_nth [OF j i])
  then show "row_major r c f ! p = map (\<lambda>p. f (p div c) (p mod c)) [0..<r * c] ! p"
    using p by simp
qed

lemma sum_list_upt: "sum_list (map f [0..<n]) = (\<Sum>k \<in> {..<n}. f k)"
  by (induction n) simp_all

section \<open>Reading the input and the result\<close>

lemma entry_old: "base a < length h \<Longrightarrow> entry (h @ t) a i j = entry h a i j"
  by (simp add: entry_def nth_append)

lemma entry_result: "entry (h @ b # t) (gram_result h a) i j = b ! (i * shape0 a + j)"
  by (simp add: entry_def gram_result_def offset_def)

lemma entry_transpose: "entry h (transpose_view a) k j = entry h a j k"
  by (simp add: entry_def transpose_view_def offset_def add.commute)

lemma length_filled: "length (filled h a init n) = shape0 a * shape0 a"
  by (simp add: filled_def)

lemma filled_nth:
  "p < shape0 a * shape0 a \<Longrightarrow>
   filled h a init n ! p = (if p < n then gram h a (p div shape0 a) (p mod shape0 a) else init p)"
  by (simp add: filled_def)

lemma filled_update:
  assumes "i < shape0 a" "j < shape0 a"
  shows "(filled h a init (i * shape0 a + j))[i * shape0 a + j := gram h a i j] =
         filled h a init (Suc (i * shape0 a + j))"
proof (rule nth_equalityI)
  show "length ((filled h a init (i * shape0 a + j))[i * shape0 a + j := gram h a i j]) =
        length (filled h a init (Suc (i * shape0 a + j)))"
    by (simp add: length_filled)
next
  fix p assume "p < length ((filled h a init (i * shape0 a + j))[i * shape0 a + j := gram h a i j])"
  then have p: "p < shape0 a * shape0 a" by (simp add: length_filled)
  show "(filled h a init (i * shape0 a + j))[i * shape0 a + j := gram h a i j] ! p =
        filled h a init (Suc (i * shape0 a + j)) ! p"
  proof (cases "p = i * shape0 a + j")
    case True
    then show ?thesis using p assms by (simp add: length_filled filled_nth)
  next
    case False
    then show ?thesis using p by (auto simp: filled_nth)
  qed
qed

lemma filled_all: "filled h a init (shape0 a * shape0 a) = gram_buffer h a"
  by (simp add: filled_def gram_buffer_def row_major_flat)

lemma filled_none_zeros: "filled h a (\<lambda>_. 0) 0 = replicate (shape0 a * shape0 a) 0"
  by (simp add: filled_def map_replicate_const)

lemma filled_none_junk: "filled h a junk 0 = map junk [0..<shape0 a * shape0 a]"
  by (simp add: filled_def)

section \<open>The triple loop\<close>

lemma mprof_inner:
  assumes a: "base a < length h" and i: "i < shape0 a" and j: "j < shape0 a"
  shows "for_loop (py_range (shape1 a)) (\<lambda>eix s.
           and_then (getitem s (gram_result h a) i j) (\<lambda>acc.
           and_then (getitem s a i eix) (\<lambda>x.
           and_then (getitem s (transpose_view a) eix j) (\<lambda>y.
           setitem s (gram_result h a) i j (acc + x * y)))))
           (h @ [b]) =
         Inr (h @ [b[i * shape0 a + j := b ! (i * shape0 a + j) + gram h a i j]])"
proof -
  let ?p = "i * shape0 a + j"
  let ?F = "\<lambda>n. h @ [b[?p := b ! ?p + (\<Sum>k \<in> {..<n}. entry h a i k * entry h a j k)]]"
  let ?body = "\<lambda>eix s.
           and_then (getitem s (gram_result h a) i j) (\<lambda>acc.
           and_then (getitem s a i eix) (\<lambda>x.
           and_then (getitem s (transpose_view a) eix j) (\<lambda>y.
           setitem s (gram_result h a) i j (acc + x * y))))"
  have step: "?body k (?F k) = Inr (?F (Suc k))" if k: "k < shape1 a" for k
  proof (cases "?p < length b")
    case True
    then show ?thesis
      using a i j k
      by (simp add: getitem_def setitem_def and_then_Inr entry_old entry_transpose
          entry_result [where t = "[]"] add.assoc)
         (simp add: gram_result_def transpose_view_def offset_def)
  next
    case False
    then have "b[?p := v] = b" for v by (simp add: list_update_beyond)
    then show ?thesis
      using a i j k
      by (simp add: getitem_def setitem_def and_then_Inr)
         (simp add: gram_result_def transpose_view_def offset_def)
  qed
  have "for_loop (py_range (shape1 a)) ?body (?F 0) = Inr (?F (shape1 a))"
    by (rule for_loop_steps) (rule step)
  then show ?thesis by (simp add: gram_def)
qed

lemma np_zeros_gram:
  "np_zeros h (shape0 a) (shape0 a) = (h @ [filled h a (\<lambda>_. 0) 0], gram_result h a)"
  by (simp add: np_zeros_def alloc_def gram_result_def filled_none_zeros)

lemma np_empty_gram:
  "np_empty junk h (shape0 a) (shape0 a) = (h @ [filled h a junk 0], gram_result h a)"
  by (simp add: np_empty_def alloc_def gram_result_def filled_none_junk)

lemma mprof_middle:
  assumes a: "base a < length h" and i: "i < shape0 a"
  shows "for_loop (py_range (shape0 a)) (\<lambda>cix.
           for_loop (py_range (shape1 a)) (\<lambda>eix s.
             and_then (getitem s (gram_result h a) i cix) (\<lambda>acc.
             and_then (getitem s a i eix) (\<lambda>x.
             and_then (getitem s (transpose_view a) eix cix) (\<lambda>y.
             setitem s (gram_result h a) i cix (acc + x * y))))))
           (h @ [filled h a (\<lambda>_. 0) (i * shape0 a)]) =
         Inr (h @ [filled h a (\<lambda>_. 0) (i * shape0 a + shape0 a)])"
proof -
  let ?F = "\<lambda>j. h @ [filled h a (\<lambda>_. 0) (i * shape0 a + j)]"
  let ?body = "\<lambda>cix.
           for_loop (py_range (shape1 a)) (\<lambda>eix s.
             and_then (getitem s (gram_result h a) i cix) (\<lambda>acc.
             and_then (getitem s a i eix) (\<lambda>x.
             and_then (getitem s (transpose_view a) eix cix) (\<lambda>y.
             setitem s (gram_result h a) i cix (acc + x * y)))))"
  have step: "?body j (?F j) = Inr (?F (Suc j))" if j: "j < shape0 a" for j
  proof -
    have p: "i * shape0 a + j < shape0 a * shape0 a"
      by (rule cell_index_less [OF i j])
    have "filled h a (\<lambda>_. 0) (i * shape0 a + j) ! (i * shape0 a + j) = 0"
      using p by (simp add: filled_nth)
    then show ?thesis
      by (simp add: mprof_inner [OF a i j] filled_update [OF i j])
  qed
  have "for_loop (py_range (shape0 a)) ?body (?F 0) = Inr (?F (shape0 a))"
    by (rule for_loop_steps) (rule step)
  then show ?thesis by simp
qed

lemma mprof_outer:
  assumes a: "base a < length h"
  shows "for_loop (py_range (shape0 a)) (\<lambda>rix.
           for_loop (py_range (shape0 a)) (\<lambda>cix.
             for_loop (py_range (shape1 a)) (\<lambda>eix s.
               and_then (getitem s (gram_result h a) rix cix) (\<lambda>acc.
               and_then (getitem s a rix eix) (\<lambda>x.
               and_then (getitem s (transpose_view a) eix cix) (\<lambda>y.
               setitem s (gram_result h a) rix cix (acc + x * y)))))))
           (h @ [filled h a (\<lambda>_. 0) 0]) =
         Inr (h @ [gram_buffer h a])"
proof -
  let ?F = "\<lambda>i. h @ [filled h a (\<lambda>_. 0) (i * shape0 a)]"
  let ?body = "\<lambda>rix.
           for_loop (py_range (shape0 a)) (\<lambda>cix.
             for_loop (py_range (shape1 a)) (\<lambda>eix s.
               and_then (getitem s (gram_result h a) rix cix) (\<lambda>acc.
               and_then (getitem s a rix eix) (\<lambda>x.
               and_then (getitem s (transpose_view a) eix cix) (\<lambda>y.
               setitem s (gram_result h a) rix cix (acc + x * y))))))"
  have step: "?body i (?F i) = Inr (?F (Suc i))" if i: "i < shape0 a" for i
    by (simp add: mprof_middle [OF a i] add.commute)
  have "for_loop (py_range (shape0 a)) ?body (?F 0) = Inr (?F (shape0 a))"
    by (rule for_loop_steps) (rule step)
  then show ?thesis by (simp add: filled_all)
qed

lemma script_mprof_result:
  assumes "base a < length h"
  shows "script_mprof_my_func h a = Inr (h @ [gram_buffer h a], gram_result h a)"
  by (simp add: script_mprof_my_func_def Let_def np_zeros_gram mprof_outer [OF assms]
      and_then_Inr)

section \<open>The two loops over sums of products, and the matrix product\<close>

lemma shape_transpose [simp]:
  "shape0 (transpose_view a) = shape1 a" "shape1 (transpose_view a) = shape0 a"
  "base (transpose_view a) = base a"
  by (simp_all add: transpose_view_def)

lemma shape_gram_result [simp]:
  "shape0 (gram_result h a) = shape0 a" "shape1 (gram_result h a) = shape0 a"
  "base (gram_result h a) = length h"
  by (simp_all add: gram_result_def)

lemma sum_list_products:
  "sum_list (map (\<lambda>k. map f [0..<n] ! k * map g [0..<n] ! k) [0..<n]) =
   (\<Sum>k \<in> {..<n}. f k * (g k :: int64))"
  unfolding sum_list_upt by (rule sum.cong) simp_all

lemma getrow_old:
  "base a < length h \<Longrightarrow> i < shape0 a \<Longrightarrow>
   getrow (h @ t) a i = Inr (map (\<lambda>k. entry h a i k) [0..<shape1 a])"
  by (simp add: getrow_def entry_old)

lemma getcol_transpose_old:
  "base a < length h \<Longrightarrow> j < shape0 a \<Longrightarrow>
   getcol (h @ t) (transpose_view a) j = Inr (map (\<lambda>k. entry h a j k) [0..<shape1 a])"
  by (simp add: getcol_def entry_transpose entry_old)

lemma setitem_result:
  "i < shape0 a \<Longrightarrow> j < shape0 a \<Longrightarrow>
   setitem (h @ b # t) (gram_result h a) i j v = Inr (h @ b[i * shape0 a + j := v] # t)"
  by (simp add: setitem_def) (simp add: gram_result_def offset_def)

lemma my_script_cell:
  assumes a: "base a < length h" and i: "i < shape0 a" and j: "j < shape0 a"
  shows "and_then (getrow (h @ [b]) a i) (\<lambda>x.
         and_then (getcol (h @ [b]) (transpose_view a) j) (\<lambda>y.
         and_then (multiply1 x y) (\<lambda>p.
         setitem (h @ [b]) (gram_result h a) i j (np_sum p)))) =
         Inr (h @ [b[i * shape0 a + j := gram h a i j]])"
  by (simp add: getrow_old [OF a i] getcol_transpose_old [OF a j] and_then_Inr multiply1_def
      np_sum_def sum_list_products setitem_result [OF i j] gram_def)

lemma my_script_middle:
  assumes a: "base a < length h" and i: "i < shape0 a"
  shows "for_loop (py_range (shape0 a)) (\<lambda>cix s.
           and_then (getrow s a i) (\<lambda>x.
           and_then (getcol s (transpose_view a) cix) (\<lambda>y.
           and_then (multiply1 x y) (\<lambda>p.
           setitem s (gram_result h a) i cix (np_sum p)))))
           (h @ [filled h a junk (i * shape0 a)]) =
         Inr (h @ [filled h a junk (i * shape0 a + shape0 a)])"
proof -
  let ?F = "\<lambda>j. h @ [filled h a junk (i * shape0 a + j)]"
  let ?body = "\<lambda>cix s.
           and_then (getrow s a i) (\<lambda>x.
           and_then (getcol s (transpose_view a) cix) (\<lambda>y.
           and_then (multiply1 x y) (\<lambda>p.
           setitem s (gram_result h a) i cix (np_sum p))))"
  have step: "?body j (?F j) = Inr (?F (Suc j))" if j: "j < shape0 a" for j
    by (simp add: my_script_cell [OF a i j] filled_update [OF i j])
  have "for_loop (py_range (shape0 a)) ?body (?F 0) = Inr (?F (shape0 a))"
    by (rule for_loop_steps) (rule step)
  then show ?thesis by simp
qed

lemma my_script_outer:
  assumes a: "base a < length h"
  shows "for_loop (py_range (shape0 a)) (\<lambda>rix.
           for_loop (py_range (shape0 a)) (\<lambda>cix s.
             and_then (getrow s a rix) (\<lambda>x.
             and_then (getcol s (transpose_view a) cix) (\<lambda>y.
             and_then (multiply1 x y) (\<lambda>p.
             setitem s (gram_result h a) rix cix (np_sum p))))))
           (h @ [filled h a junk 0]) =
         Inr (h @ [gram_buffer h a])"
proof -
  let ?F = "\<lambda>i. h @ [filled h a junk (i * shape0 a)]"
  let ?body = "\<lambda>rix.
           for_loop (py_range (shape0 a)) (\<lambda>cix s.
             and_then (getrow s a rix) (\<lambda>x.
             and_then (getcol s (transpose_view a) cix) (\<lambda>y.
             and_then (multiply1 x y) (\<lambda>p.
             setitem s (gram_result h a) rix cix (np_sum p)))))"
  have step: "?body i (?F i) = Inr (?F (Suc i))" if i: "i < shape0 a" for i
    by (simp add: my_script_middle [OF a i] add.commute)
  have "for_loop (py_range (shape0 a)) ?body (?F 0) = Inr (?F (shape0 a))"
    by (rule for_loop_steps) (rule step)
  then show ?thesis by (simp add: filled_all)
qed

lemma my_script_result:
  assumes "base a < length h"
  shows "my_script_my_func junk h a = Inr (h @ [gram_buffer h a], gram_result h a)"
  by (simp add: my_script_my_func_def Let_def np_empty_gram my_script_outer [OF assms]
      and_then_Inr)

lemma script_dot_result:
  "script_dot_my_func h a = Inr (h @ [gram_buffer h a], gram_result h a)"
proof -
  have "(\<lambda>i j. sum_list (map (\<lambda>k. entry h a i k * entry h (transpose_view a) k j)
           [0..<shape1 a])) = gram h a"
    by (intro ext) (simp add: sum_list_upt entry_transpose gram_def)
  then show ?thesis
    by (simp add: script_dot_my_func_def matmul_def alloc_def gram_buffer_def gram_result_def)
qed

section \<open>The broadcast variant\<close>

lemma offset_result: "offset (gram_result h a) i j = i * shape0 a + j"
  by (simp add: gram_result_def offset_def)

lemma fold_row_filled:
  assumes i: "i < shape0 a"
  shows "n \<le> shape0 a \<Longrightarrow>
         fold (\<lambda>j b. b[i * shape0 a + j := map (\<lambda>j. gram h a i j) [0..<shape0 a] ! j])
           [0..<n] (filled h a init (i * shape0 a)) =
         filled h a init (i * shape0 a + n)"
proof (induction n)
  case 0
  show ?case by simp
next
  case (Suc n)
  then have n: "n < shape0 a" by simp
  show ?case
    using Suc.IH n by (simp add: filled_update [OF i n])
qed

lemma sum_axis0_product:
  assumes a: "base a < length h" and i: "i < shape0 a"
  shows "np_sum_axis0
           (s @ [row_major (shape1 a) (shape0 a)
                   (\<lambda>k j. map (\<lambda>k. entry h a i k) [0..<shape1 a] ! k * entry h a j k)])
           \<lparr>base = length s, shape0 = shape1 a, shape1 = shape0 a,
            stride0 = shape0 a, stride1 = 1\<rparr> =
         map (\<lambda>j. gram h a i j) [0..<shape0 a]"
proof -
  let ?tmp = "row_major (shape1 a) (shape0 a)
                (\<lambda>k j. map (\<lambda>k. entry h a i k) [0..<shape1 a] ! k * entry h a j k)"
  let ?prod = "\<lparr>base = length s, shape0 = shape1 a, shape1 = shape0 a,
                 stride0 = shape0 a, stride1 = 1\<rparr>"
  have cell: "entry (s @ [?tmp]) ?prod k j = entry h a i k * entry h a j k"
    if "k < shape1 a" "j < shape0 a" for k j
    using that by (simp add: entry_def offset_def row_major_nth)
  have "sum_list (map (\<lambda>k. entry (s @ [?tmp]) ?prod k j) [0..<shape1 a]) = gram h a i j"
    if j: "j < shape0 a" for j
    unfolding sum_list_upt gram_def by (rule sum.cong) (use cell j in simp_all)
  then show ?thesis by (simp add: np_sum_axis0_def)
qed

lemma bcast_step:
  assumes a: "base a < length h" and i: "i < shape0 a"
  shows "\<exists>tmp.
         and_then (getrow (h @ filled h a (\<lambda>_. 0) (i * shape0 a) # temps) a i) (\<lambda>x.
         and_then (multiply_column (h @ filled h a (\<lambda>_. 0) (i * shape0 a) # temps) x
                     (transpose_view a)) (\<lambda>(s', prod).
         setrow s' (gram_result h a) i (np_sum_axis0 s' prod))) =
         Inr (h @ filled h a (\<lambda>_. 0) (Suc i * shape0 a) # temps @ [tmp])"
proof -
  let ?s = "h @ filled h a (\<lambda>_. 0) (i * shape0 a) # temps"
  let ?x = "map (\<lambda>k. entry h a i k) [0..<shape1 a]"
  let ?tmp = "row_major (shape1 a) (shape0 a) (\<lambda>k j. ?x ! k * entry h a j k)"
  let ?prod = "\<lparr>base = length ?s, shape0 = shape1 a, shape1 = shape0 a,
                 stride0 = shape0 a, stride1 = 1\<rparr>"
  have row: "getrow ?s a i = Inr ?x"
    by (rule getrow_old [OF a i])
  have "(\<lambda>k j. ?x ! k * entry ?s (transpose_view a) k j) = (\<lambda>k j. ?x ! k * entry h a j k)"
    using a by (simp add: entry_transpose entry_old)
  then have mul: "multiply_column ?s ?x (transpose_view a) = Inr (?s @ [?tmp], ?prod)"
    by (simp add: multiply_column_def alloc_def)
  have red: "np_sum_axis0 (?s @ [?tmp]) ?prod = map (\<lambda>j. gram h a i j) [0..<shape0 a]"
    by (rule sum_axis0_product [OF a i])
  have next_row: "Suc i * shape0 a = i * shape0 a + shape0 a"
    by simp
  have "setrow (?s @ [?tmp]) (gram_result h a) i (map (\<lambda>j. gram h a i j) [0..<shape0 a]) =
        Inr (h @ filled h a (\<lambda>_. 0) (i * shape0 a + shape0 a) # temps @ [?tmp])"
    using i
    by (simp add: setrow_def offset_result fold_row_filled [OF i])
  then show ?thesis
    by (intro exI [of _ ?tmp]) (simp only: row mul red and_then_Inr split next_row)
qed

lemma bcast_outer:
  assumes a: "base a < length h"
  shows "\<exists>temps. length temps = shape0 a \<and>
         for_loop (py_range (shape0 a)) (\<lambda>rix s.
           and_then (getrow s a rix) (\<lambda>x.
           and_then (multiply_column s x (transpose_view a)) (\<lambda>(s', prod).
           setrow s' (gram_result h a) rix (np_sum_axis0 s' prod))))
           (h @ [filled h a (\<lambda>_. 0) 0]) =
         Inr (h @ gram_buffer h a # temps)"
proof -
  let ?body = "\<lambda>rix s.
           and_then (getrow s a rix) (\<lambda>x.
           and_then (multiply_column s x (transpose_view a)) (\<lambda>(s', prod).
           setrow s' (gram_result h a) rix (np_sum_axis0 s' prod)))"
  let ?P = "\<lambda>i s. \<exists>temps. length temps = i \<and> s = h @ filled h a (\<lambda>_. 0) (i * shape0 a) # temps"
  have "\<exists>t. for_loop (py_range (shape0 a)) ?body (h @ [filled h a (\<lambda>_. 0) 0]) = Inr t
          \<and> ?P (shape0 a) t"
  proof (rule for_loop_range [where P = ?P])
    show "?P 0 (h @ [filled h a (\<lambda>_. 0) 0])" by simp
  next
    fix i t assume i: "i < shape0 a" and "?P i t"
    then obtain temps where t: "length temps = i"
      "t = h @ filled h a (\<lambda>_. 0) (i * shape0 a) # temps"
      by blast
    from bcast_step [OF a i, of temps] obtain tmp where
      "?body i t = Inr (h @ filled h a (\<lambda>_. 0) (Suc i * shape0 a) # temps @ [tmp])"
      unfolding t(2) by blast
    then show "\<exists>t'. ?body i t = Inr t' \<and> ?P (Suc i) t'"
      using t(1) by auto
  qed
  then show ?thesis by (auto simp: filled_all)
qed

lemma script_bcast_mprof_result:
  assumes "base a < length h"
  shows "\<exists>temps. length temps = shape0 a \<and>
         script_bcast_mprof_my_func h a = Inr (h @ gram_buffer h a # temps, gram_result h a)"
proof -
  from bcast_outer [OF assms] obtain temps where
    "length temps = shape0 a"
    "for_loop (py_range (shape0 a)) (\<lambda>rix s.
           and_then (getrow s a rix) (\<lambda>x.
           and_then (multiply_column s x (transpose_view a)) (\<lambda>(s', prod).
           setrow s' (gram_result h a) rix (np_sum_axis0 s' prod))))
           (h @ [filled h a (\<lambda>_. 0) 0]) =
         Inr (h @ gram_buffer h a # temps)"
    by blast
  then show ?thesis
    by (intro exI [of _ temps])
       (simp add: script_bcast_mprof_my_func_def Let_def np_zeros_gram and_then_Inr)
qed

section \<open>The result of each variant\<close>

lemma variant_result:
  assumes "well_formed h a" and "f \<in> set (variants junk)"
  shows "\<exists>temps. f h a = Inr (h @ gram_buffer h a # temps, gram_result h a)"
proof -
  have a: "base a < length h"
    using assms(1) by (simp add: well_formed_def)
  from assms(2) consider "f = script_mprof_my_func" | "f = script_bcast_mprof_my_func"
    | "f = script_dot_my_func" | "f = my_script_my_func junk"
    by (auto simp: variants_def strategies_def)
  then show ?thesis
  proof cases
    case 1
    then show ?thesis by (simp add: script_mprof_result [OF a])
  next
    case 2
    then show ?thesis using script_bcast_mprof_result [OF a] by blast
  next
    case 3
    then show ?thesis by (simp add: script_dot_result)
  next
    case 4
    then show ?thesis by (simp add: my_script_result [OF a])
  qed
qed

lemma strategies_variants: "f \<in> set strategies \<Longrightarrow> f \<in> set (variants junk)"
  by (simp add: variants_def)

lemma entry_gram_buffer:
  "i < shape0 a \<Longrightarrow> j < shape0 a \<Longrightarrow>
   entry (h @ gram_buffer h a # t) (gram_result h a) i j = gram h a i j"
  by (simp add: entry_result gram_buffer_def row_major_nth)

lemma result_shape_gram:
  "result_shape (Inr (h @ gram_buffer h a # t, gram_result h a)) = Some (shape0 a, shape0 a)"
  by (simp add: result_shape_def)

lemma result_entry_gram:
  "i < shape0 a \<Longrightarrow> j < shape0 a \<Longrightarrow>
   result_entry (Inr (h @ gram_buffer h a # t, gram_result h a)) i j = Some (gram h a i j)"
  by (simp add: result_entry_def getitem_def entry_gram_buffer)

lemma result_list_gram:
  "result_list (Inr (h @ gram_buffer h a # t, gram_result h a)) = Some (gram_matrix h a)"
  by (simp add: result_list_def tolist_def gram_matrix_def entry_gram_buffer)

lemma gram_of_int: "gram h a i j = word_of_int (gram_int h a i j)"
  by (simp add: gram_def gram_int_def)

lemma sint_gram: "sint (gram h a i j) = signed_take_bit 63 (gram_int h a i j)"
  by (simp add: gram_of_int sint_sbintrunc')

lemma sint_gram_exact:
  "- (2 ^ 63) \<le> gram_int h a i j \<Longrightarrow> gram_int h a i j < 2 ^ 63 \<Longrightarrow>
   sint (gram h a i j) = gram_int h a i j"
  by (simp add: sint_gram signed_take_bit_int_eq_self_iff)

lemma gram_commute: "gram h a i j = gram h a j i"
  by (simp add: gram_def mult.commute)

lemma gram_int_nonneg:
  assumes "\<forall>i \<in> {..<shape0 a}. \<forall>k \<in> {..<shape1 a}. 0 \<le> sint (entry h a i k)"
    and "i < shape0 a" and "j < shape0 a"
  shows "0 \<le> gram_int h a i j"
  unfolding gram_int_def using assms by (intro sum_nonneg mult_nonneg_nonneg) auto

lemma gram_int_digits:
  assumes digits: "\<forall>r \<in> {..<shape0 a}. \<forall>k \<in> {..<shape1 a}.
      0 \<le> sint (entry h a r k) \<and> sint (entry h a r k) < 10"
    and i: "i < shape0 a" and j: "j < shape0 a"
  shows "gram_int h a i j \<le> 81 * int (shape1 a)"
proof -
  have "sint (entry h a i k) * sint (entry h a j k) \<le> 81" if "k \<in> {..<shape1 a}" for k
  proof -
    from digits i j that have
      "0 \<le> sint (entry h a i k)" "sint (entry h a i k) \<le> 9"
      "0 \<le> sint (entry h a j k)" "sint (entry h a j k) \<le> 9"
      by force+
    then have "sint (entry h a i k) * sint (entry h a j k) \<le> 9 * 9"
      by (intro mult_mono) simp_all
    then show ?thesis by simp
  qed
  then have "gram_int h a i j \<le> of_nat (card {..<shape1 a}) * 81"
    unfolding gram_int_def by (rule sum_bounded_above)
  then show ?thesis by simp
qed

section \<open>The example, empty arrays and fresh buffers\<close>

lemma example_well_formed: "well_formed example_store example_array"
  by (auto simp: well_formed_def offset_def example_store_def example_array_def)

lemma example_gram_matrix: "gram_matrix example_store example_array = [[14, 32], [32, 77]]"
  by code_simp

lemma length_gram_matrix: "length (gram_matrix h a) = shape0 a"
  by (simp add: gram_matrix_def)

lemma length_gram_matrix_row: "row \<in> set (gram_matrix h a) \<Longrightarrow> length row = shape0 a"
  by (auto simp: gram_matrix_def)

lemma variants_mprof: "script_mprof_my_func \<in> set (variants junk)"
  by (simp add: variants_def strategies_def)

lemma strategies_mprof: "script_mprof_my_func \<in> set strategies"
  by (simp add: strategies_def)

lemma gram_no_columns: "shape1 a = 0 \<Longrightarrow> gram h a i j = 0"
  by (simp add: gram_def)

lemma gram_matrix_no_columns:
  "shape1 a = 0 \<Longrightarrow> gram_matrix h a = replicate (shape0 a) (replicate (shape0 a) 0)"
  by (simp add: gram_matrix_def gram_no_columns map_replicate_const)

lemma tolist_old: "base a < length h \<Longrightarrow> tolist (h @ t) a = tolist h a"
  by (simp add: tolist_def entry_old)

text \<open>The allocation itself does expose what the buffer held.\<close>

lemma np_empty_holds_junk:
  "np_empty junk h 1 1 =
     (h @ [[junk 0]], \<lparr>base = length h, shape0 = 1, shape1 = 1, stride0 = 1, stride1 = 1\<rparr>)"
  by (simp add: np_empty_def alloc_def)

section \<open>At \<open>int64\<close> the dtype makes no difference\<close>

lemma wrap_Int64: "wrap Int64 v = v"
  unfolding wrap_def by (rule bit_word_eqI) (auto simp add: bit_signed_take_bit_iff)

lemma script_mprof_my_func_Int64: "script_mprof_my_func_dtype Int64 = script_mprof_my_func"
  by (intro ext) (simp add: script_mprof_my_func_dtype_def script_mprof_my_func_def wrap_Int64)

lemma script_bcast_mprof_my_func_Int64:
  "script_bcast_mprof_my_func_dtype Int64 = script_bcast_mprof_my_func"
proof -
  have "multiply_column_dtype Int64 = multiply_column"
    by (intro ext) (simp add: multiply_column_dtype_def multiply_column_def wrap_Int64)
  then show ?thesis
    by (intro ext)
       (simp add: script_bcast_mprof_my_func_dtype_def script_bcast_mprof_my_func_def)
qed

lemma script_dot_my_func_Int64: "script_dot_my_func_dtype Int64 = script_dot_my_func"
  by (intro ext)
     (simp add: script_dot_my_func_dtype_def script_dot_my_func_def matmul_dtype_def matmul_def
       wrap_Int64)

section \<open>Properties of the specification\<close>

text \<open>
  C1 (as the code has it). For every well-formed \<open>R \<times> N\<close> array, each of the four
  variants of \<open>my_func\<close> returns an \<open>R \<times> R\<close> array whose element \<open>(i, j)\<close> is the
  sum over \<open>k\<close> of \<open>M[i][k] * M[j][k]\<close> computed in \<open>int64\<close>: read as a signed
  integer it is the mathematical sum reduced modulo \<open>2 ^ 64\<close> into the signed 64-bit
  range, and it is the mathematical sum itself whenever that sum lies in this range.
\<close>

theorem self_dot_product_wraps:
  assumes "well_formed h a" and "f \<in> set (variants junk)"
    and "i < shape0 a" and "j < shape0 a"
  shows "result_shape (f h a) = Some (shape0 a, shape0 a) \<and>
         result_entry (f h a) i j = Some (gram h a i j) \<and>
         sint (gram h a i j) = signed_take_bit 63 (gram_int h a i j) \<and>
         (- (2 ^ 63) \<le> gram_int h a i j \<and> gram_int h a i j < 2 ^ 63 \<longrightarrow>
            sint (gram h a i j) = gram_int h a i j)"
proof -
  from variant_result [OF assms(1,2)] obtain temps where
    res: "f h a = Inr (h @ gram_buffer h a # temps, gram_result h a)" ..
  have shape: "result_shape (f h a) = Some (shape0 a, shape0 a)"
    by (simp only: res result_shape_gram)
  have cell: "result_entry (f h a) i j = Some (gram h a i j)"
    by (simp only: res result_entry_gram [OF assms(3,4)])
  have exact: "- (2 ^ 63) \<le> gram_int h a i j \<and> gram_int h a i j < 2 ^ 63 \<longrightarrow>
      sint (gram h a i j) = gram_int h a i j"
    using sint_gram_exact by blast
  from shape cell sint_gram exact show ?thesis by blast
qed

theorem self_dot_product_wraps_witness:
  "well_formed example_store example_array \<and>
   result_shape (script_mprof_my_func example_store example_array) = Some (2, 2) \<and>
   result_entry (script_mprof_my_func example_store example_array) 0 1 = Some 32 \<and>
   gram_int example_store example_array 0 1 = 32 \<and>
   sint (32 :: int64) = gram_int example_store example_array 0 1"
proof -
  note wf = example_well_formed
  have f: "script_mprof_my_func \<in> set (variants (\<lambda>_. 0))"
    by (rule variants_mprof)
  have g: "gram example_store example_array 0 1 = 32"
    by (simp add: gram_def entry_def offset_def example_store_def example_array_def
        lessThan_nat_numeral lessThan_Suc)
  have gi: "gram_int example_store example_array 0 1 = 32"
    by (simp add: gram_int_def entry_def offset_def example_store_def example_array_def
        lessThan_nat_numeral lessThan_Suc)
  have i: "(0::nat) < shape0 example_array" "(1::nat) < shape0 example_array"
    by (simp_all add: example_array_def)
  have s: "shape0 example_array = 2"
    by (simp add: example_array_def)
  have range: "- (2 ^ 63) \<le> gram_int example_store example_array 0 1 \<and>
      gram_int example_store example_array 0 1 < 2 ^ 63"
    unfolding gi by simp
  from self_dot_product_wraps [OF wf f i] have
    "result_shape (script_mprof_my_func example_store example_array) = Some (2, 2)"
    "result_entry (script_mprof_my_func example_store example_array) 0 1 = Some 32"
    "sint (32 :: int64) = gram_int example_store example_array 0 1"
    using range unfolding g s by blast+
  with wf gi show ?thesis by blast
qed

text \<open>
  The mathematical product is not what is returned when a sum leaves the 64-bit range:
  for the \<open>1 \<times> 1\<close> array holding \<open>2 ^ 32\<close> the variants return 0, the exact sum is
  \<open>2 ^ 64\<close>.
\<close>

theorem self_dot_product_exact_counterexample:
  "well_formed [[4294967296]] \<lparr>base = 0, shape0 = 1, shape1 = 1, stride0 = 1, stride1 = 1\<rparr> \<and>
   map_option sint (result_entry (script_mprof_my_func [[4294967296]]
      \<lparr>base = 0, shape0 = 1, shape1 = 1, stride0 = 1, stride1 = 1\<rparr>) 0 0) = Some 0 \<and>
   map_option sint (result_entry (script_dot_my_func [[4294967296]]
      \<lparr>base = 0, shape0 = 1, shape1 = 1, stride0 = 1, stride1 = 1\<rparr>) 0 0) = Some 0 \<and>
   gram_int [[4294967296]] \<lparr>base = 0, shape0 = 1, shape1 = 1, stride0 = 1, stride1 = 1\<rparr> 0 0 =
     18446744073709551616"
proof -
  let ?a = "\<lparr>base = 0, shape0 = 1, shape1 = 1, stride0 = 1, stride1 = 1\<rparr>"
  have wf: "well_formed [[4294967296]] ?a"
    by (simp add: well_formed_def offset_def)
  have m: "script_mprof_my_func [[4294967296]] ?a =
      Inr ([[4294967296], [0]],
           \<lparr>base = 1, shape0 = 1, shape1 = 1, stride0 = 1, stride1 = 1\<rparr>)"
    by code_simp
  have d: "script_dot_my_func [[4294967296]] ?a =
      Inr ([[4294967296], [0]],
           \<lparr>base = 1, shape0 = 1, shape1 = 1, stride0 = 1, stride1 = 1\<rparr>)"
    by code_simp
  have g: "gram_int [[4294967296]] ?a 0 0 = 18446744073709551616"
    by (simp add: gram_int_def entry_def offset_def)
  show ?thesis
    unfolding m d
    using wf g by (simp add: result_entry_def getitem_def entry_def offset_def)
qed

text \<open>
  C2 (as the code has it). For every well-formed \<open>R \<times> N\<close> array of dtype \<open>int64\<close>, the
  triple loop of \<open>script_mprof\<close>, the broadcast and reduction of \<open>script_bcast_mprof\<close>
  and the matrix product of \<open>script_dot\<close> all return, without error, the same \<open>R \<times> R\<close>
  elements.
\<close>

theorem strategies_agree:
  assumes "well_formed h a"
  shows "\<exists>m. result_list (script_mprof_my_func h a) = Some m \<and>
             result_list (script_bcast_mprof_my_func h a) = Some m \<and>
             result_list (script_dot_my_func h a) = Some m \<and>
             result_list (script_mprof_my_func_dtype Int64 h a) = Some m \<and>
             result_list (script_bcast_mprof_my_func_dtype Int64 h a) = Some m \<and>
             result_list (script_dot_my_func_dtype Int64 h a) = Some m \<and>
             length m = shape0 a \<and> (\<forall>row \<in> set m. length row = shape0 a)"
proof -
  have all: "result_list (f h a) = Some (gram_matrix h a)" if "f \<in> set strategies" for f
  proof -
    from variant_result [OF assms strategies_variants [OF that]] obtain temps where
      "f h a = Inr (h @ gram_buffer h a # temps, gram_result h a)" ..
    then show ?thesis by (simp only: result_list_gram)
  qed
  have "result_list (script_mprof_my_func h a) = Some (gram_matrix h a)"
    "result_list (script_bcast_mprof_my_func h a) = Some (gram_matrix h a)"
    "result_list (script_dot_my_func h a) = Some (gram_matrix h a)"
    by (rule all, simp add: strategies_def)+
  then show ?thesis
    unfolding script_mprof_my_func_Int64 script_bcast_mprof_my_func_Int64
      script_dot_my_func_Int64
    using length_gram_matrix length_gram_matrix_row by blast
qed

text \<open>
  C2 on the example array.
\<close>

theorem strategies_agree_witness:
  "well_formed example_store example_array \<and>
   (\<exists>m. result_list (script_mprof_my_func example_store example_array) = Some m \<and>
        result_list (script_bcast_mprof_my_func example_store example_array) = Some m \<and>
        result_list (script_dot_my_func example_store example_array) = Some m \<and>
        result_list (script_mprof_my_func_dtype Int64 example_store example_array) = Some m \<and>
        result_list (script_bcast_mprof_my_func_dtype Int64 example_store example_array) =
          Some m \<and>
        result_list (script_dot_my_func_dtype Int64 example_store example_array) = Some m \<and>
        length m = 2 \<and> (\<forall>row \<in> set m. length row = 2))"
proof -
  have s: "shape0 example_array = 2"
    by (simp add: example_array_def)
  from strategies_agree [OF example_well_formed] example_well_formed show ?thesis
    unfolding s by simp
qed

text \<open>
  The three strategies do not agree on every integer matrix: for the \<open>1 \<times> 2\<close> array of
  dtype \<open>int8\<close> with the row \<open>9, 9\<close> the products (81) fit into \<open>int8\<close>; the triple loop
  and the broadcast variant add them in \<open>int64\<close> and return 162, the matrix product adds
  them in \<open>int8\<close> and returns \<open>- 94\<close>.
\<close>

theorem strategies_differ_int8_counterexample:
  "well_formed [[9, 9]] int8_row \<and> in_dtype Int8 [[9, 9]] int8_row \<and>
   map_option (map (map sint)) (result_list (script_mprof_my_func_dtype Int8 [[9, 9]] int8_row)) =
     Some [[162]] \<and>
   map_option (map (map sint))
     (result_list (script_bcast_mprof_my_func_dtype Int8 [[9, 9]] int8_row)) = Some [[162]] \<and>
   map_option (map (map sint)) (result_list (script_dot_my_func_dtype Int8 [[9, 9]] int8_row)) =
     Some [[- 94]]"
proof -
  have wf: "well_formed [[9, 9]] int8_row"
    by (auto simp: well_formed_def offset_def int8_row_def)
  have dt: "in_dtype Int8 [[9, 9]] int8_row"
    by code_simp
  have m: "result_list (script_mprof_my_func_dtype Int8 [[9, 9]] int8_row) = Some [[162]]"
    by code_simp
  have b: "result_list (script_bcast_mprof_my_func_dtype Int8 [[9, 9]] int8_row) = Some [[162]]"
    by code_simp
  have d: "result_list (script_dot_my_func_dtype Int8 [[9, 9]] int8_row) = Some [[- 94]]"
    by code_simp
  show ?thesis
    unfolding m b d using wf dt by simp
qed

text \<open>
  C3 (as the code has it). For every well-formed \<open>R \<times> N\<close> array, the result of each of
  the three strategies is \<open>R \<times> R\<close> and symmetric. Its element \<open>(i, j)\<close> is non-negative
  when the elements of the input are non-negative and the exact sum of the products
  \<open>M[i][k] * M[j][k]\<close> is below \<open>2 ^ 63\<close>; this is the case when the elements lie in
  \<open>[0, 10)\<close> and there are at most \<open>10 ^ 17\<close> columns.
\<close>

theorem result_square_symmetric:
  assumes "well_formed h a" and "f \<in> set strategies"
    and "i < shape0 a" and "j < shape0 a"
  shows "result_shape (f h a) = Some (shape0 a, shape0 a) \<and>
         result_entry (f h a) i j = result_entry (f h a) j i \<and>
         ((\<forall>r \<in> {..<shape0 a}. \<forall>k \<in> {..<shape1 a}. 0 \<le> sint (entry h a r k)) \<and>
          gram_int h a i j < 2 ^ 63 \<longrightarrow>
          (\<exists>v. result_entry (f h a) i j = Some v \<and> 0 \<le> sint v)) \<and>
         ((\<forall>r \<in> {..<shape0 a}. \<forall>k \<in> {..<shape1 a}.
             0 \<le> sint (entry h a r k) \<and> sint (entry h a r k) < 10) \<and>
          shape1 a \<le> 10 ^ 17 \<longrightarrow>
          (\<exists>v. result_entry (f h a) i j = Some v \<and> 0 \<le> sint v))"
proof -
  from variant_result [OF assms(1) strategies_variants [OF assms(2)]] obtain temps where
    res: "f h a = Inr (h @ gram_buffer h a # temps, gram_result h a)" ..
  have shape: "result_shape (f h a) = Some (shape0 a, shape0 a)"
    by (simp only: res result_shape_gram)
  have ij: "result_entry (f h a) i j = Some (gram h a i j)"
    by (simp only: res result_entry_gram [OF assms(3,4)])
  have ji: "result_entry (f h a) j i = Some (gram h a i j)"
    by (simp only: res result_entry_gram [OF assms(4,3)] gram_commute [of h a j i])
  have general: "0 \<le> sint (gram h a i j)"
    if nonneg: "\<forall>r \<in> {..<shape0 a}. \<forall>k \<in> {..<shape1 a}. 0 \<le> sint (entry h a r k)"
      and fits: "gram_int h a i j < 2 ^ 63"
  proof -
    have "0 \<le> gram_int h a i j"
      by (rule gram_int_nonneg [OF nonneg assms(3,4)])
    moreover from this have "- (2 ^ 63) \<le> gram_int h a i j"
      by simp
    ultimately show ?thesis
      using sint_gram_exact [OF _ fits] by simp
  qed
  have "0 \<le> sint (gram h a i j)"
    if digits: "\<forall>r \<in> {..<shape0 a}. \<forall>k \<in> {..<shape1 a}.
        0 \<le> sint (entry h a r k) \<and> sint (entry h a r k) < 10"
      and cols: "shape1 a \<le> 10 ^ 17"
  proof -
    have "gram_int h a i j \<le> 81 * int (shape1 a)"
      by (rule gram_int_digits [OF digits assms(3,4)])
    also have "\<dots> \<le> 81 * 10 ^ 17"
      using cols by simp
    also have "\<dots> < (2::int) ^ 63"
      by simp
    finally have "gram_int h a i j < 2 ^ 63" .
    moreover from digits have
      "\<forall>r \<in> {..<shape0 a}. \<forall>k \<in> {..<shape1 a}. 0 \<le> sint (entry h a r k)"
      by blast
    ultimately show ?thesis by (intro general)
  qed
  with general shape ij ji show ?thesis by auto
qed

text \<open>
  C3 on the example array.
\<close>

theorem result_square_symmetric_witness:
  "well_formed example_store example_array \<and>
   result_shape (script_mprof_my_func example_store example_array) = Some (2, 2) \<and>
   result_entry (script_mprof_my_func example_store example_array) 0 1 =
     result_entry (script_mprof_my_func example_store example_array) 1 0 \<and>
   (\<exists>v. result_entry (script_mprof_my_func example_store example_array) 0 1 = Some v \<and>
        0 \<le> sint v)"
proof -
  have s: "shape0 example_array = 2"
    by (simp add: example_array_def)
  have i: "(0::nat) < shape0 example_array" "(1::nat) < shape0 example_array"
    by (simp_all add: example_array_def)
  have nonneg: "\<forall>r \<in> {..<shape0 example_array}. \<forall>k \<in> {..<shape1 example_array}.
      0 \<le> sint (entry example_store example_array r k)"
    by (simp add: example_array_def example_store_def entry_def offset_def
        lessThan_nat_numeral lessThan_Suc)
  have fits: "gram_int example_store example_array 0 1 < 2 ^ 63"
    by (simp add: gram_int_def example_array_def example_store_def entry_def offset_def
        lessThan_nat_numeral lessThan_Suc)
  have digits: "\<forall>r \<in> {..<shape0 example_array}. \<forall>k \<in> {..<shape1 example_array}.
      0 \<le> sint (entry example_store example_array r k) \<and>
      sint (entry example_store example_array r k) < 10"
    by (simp add: example_array_def example_store_def entry_def offset_def
        lessThan_nat_numeral lessThan_Suc)
  have cols: "shape1 example_array \<le> 10 ^ 17"
    by (simp add: example_array_def)
  from result_square_symmetric [OF example_well_formed strategies_mprof i] nonneg fits
    digits cols example_well_formed
  show ?thesis
    unfolding s by blast
qed

text \<open>
  Non-negative input alone does not give a non-negative result: for the \<open>1 \<times> 1\<close> array
  holding 3037000500 the square exceeds \<open>2 ^ 63 - 1\<close> and the element returned is
  negative.
\<close>

theorem result_nonneg_counterexample:
  "well_formed [[3037000500]] \<lparr>base = 0, shape0 = 1, shape1 = 1, stride0 = 1, stride1 = 1\<rparr> \<and>
   0 \<le> sint (entry [[3037000500]]
      \<lparr>base = 0, shape0 = 1, shape1 = 1, stride0 = 1, stride1 = 1\<rparr> 0 0) \<and>
   map_option sint (result_entry (script_mprof_my_func [[3037000500]]
      \<lparr>base = 0, shape0 = 1, shape1 = 1, stride0 = 1, stride1 = 1\<rparr>) 0 0) =
     Some (- 9223372036709301616)"
proof -
  let ?a = "\<lparr>base = 0, shape0 = 1, shape1 = 1, stride0 = 1, stride1 = 1\<rparr>"
  have wf: "well_formed [[3037000500]] ?a"
    by (simp add: well_formed_def offset_def)
  have m: "script_mprof_my_func [[3037000500]] ?a =
      Inr ([[3037000500], [9223372037000250000]],
           \<lparr>base = 1, shape0 = 1, shape1 = 1, stride0 = 1, stride1 = 1\<rparr>)"
    by code_simp
  show ?thesis
    unfolding m
    using wf by (simp add: result_entry_def getitem_def entry_def offset_def)
qed

text \<open>
  C7 (as the code has it). No variant of \<open>my_func\<close> checks its argument and there is no
  \<open>InvalidInput\<close> error: for every well-formed two-dimensional array, those with no rows
  or no columns included, each variant returns an \<open>R \<times> R\<close> array without raising.
\<close>

theorem no_input_check:
  assumes "well_formed h a" and "f \<in> set (variants junk)"
  shows "\<exists>s r. f h a = Inr (s, r) \<and> shape0 r = shape0 a \<and> shape1 r = shape0 a"
proof -
  from variant_result [OF assms] obtain temps where
    "f h a = Inr (h @ gram_buffer h a # temps, gram_result h a)" ..
  then show ?thesis by simp
qed

text \<open>
  C7 on the example array.
\<close>

theorem no_input_check_witness:
  "well_formed example_store example_array \<and>
   (\<exists>s r. script_mprof_my_func example_store example_array = Inr (s, r) \<and>
      shape0 r = 2 \<and> shape1 r = 2)"
proof -
  have s: "shape0 example_array = 2"
    by (simp add: example_array_def)
  from no_input_check [OF example_well_formed variants_mprof] example_well_formed
  show ?thesis
    unfolding s by simp
qed

text \<open>
  An empty matrix is not rejected: for an array with no rows and three columns the
  triple loop and the broadcast variant return an empty \<open>0 \<times> 0\<close> array.
\<close>

theorem empty_matrix_counterexample:
  "well_formed [[]] \<lparr>base = 0, shape0 = 0, shape1 = 3, stride0 = 3, stride1 = 1\<rparr> \<and>
   script_mprof_my_func [[]] \<lparr>base = 0, shape0 = 0, shape1 = 3, stride0 = 3, stride1 = 1\<rparr> =
     Inr ([[], []], \<lparr>base = 1, shape0 = 0, shape1 = 0, stride0 = 0, stride1 = 1\<rparr>) \<and>
   script_bcast_mprof_my_func [[]] \<lparr>base = 0, shape0 = 0, shape1 = 3, stride0 = 3, stride1 = 1\<rparr> =
     Inr ([[], []], \<lparr>base = 1, shape0 = 0, shape1 = 0, stride0 = 0, stride1 = 1\<rparr>)"
proof -
  let ?a = "\<lparr>base = 0, shape0 = 0, shape1 = 3, stride0 = 3, stride1 = 1\<rparr>"
  have wf: "well_formed [[]] ?a"
    by (simp add: well_formed_def)
  have m: "script_mprof_my_func [[]] ?a =
      Inr ([[], []], \<lparr>base = 1, shape0 = 0, shape1 = 0, stride0 = 0, stride1 = 1\<rparr>)"
    by code_simp
  have b: "script_bcast_mprof_my_func [[]] ?a =
      Inr ([[], []], \<lparr>base = 1, shape0 = 0, shape1 = 0, stride0 = 0, stride1 = 1\<rparr>)"
    by code_simp
  from wf m b show ?thesis by blast
qed

text \<open>
  C8. For an array with \<open>R\<close> rows and no columns, every variant of \<open>my_func\<close> returns the
  \<open>R \<times> R\<close> array of zeros: this is the policy the code implements.
\<close>

theorem no_columns_zero_matrix:
  assumes "well_formed h a" and "shape1 a = 0" and "f \<in> set (variants junk)"
  shows "result_list (f h a) = Some (replicate (shape0 a) (replicate (shape0 a) 0))"
proof -
  from variant_result [OF assms(1,3)] obtain temps where
    "f h a = Inr (h @ gram_buffer h a # temps, gram_result h a)" ..
  then show ?thesis
    by (simp only: result_list_gram gram_matrix_no_columns [OF assms(2)])
qed

text \<open>
  C8 on an array with two rows and no columns.
\<close>

theorem no_columns_zero_matrix_witness:
  "well_formed [[]] empty_columns_array \<and> shape1 empty_columns_array = 0 \<and>
   result_list (script_mprof_my_func [[]] empty_columns_array) = Some [[0, 0], [0, 0]] \<and>
   result_list (my_script_my_func (\<lambda>_. 7) [[]] empty_columns_array) = Some [[0, 0], [0, 0]]"
proof -
  have wf: "well_formed [[]] empty_columns_array"
    by (simp add: well_formed_def empty_columns_array_def)
  have n: "shape1 empty_columns_array = 0"
    by (simp add: empty_columns_array_def)
  have s: "shape0 empty_columns_array = 2"
    by (simp add: empty_columns_array_def)
  have v: "my_script_my_func (\<lambda>_. 7) \<in> set (variants (\<lambda>_. 7))"
    by (simp add: variants_def)
  have z: "replicate 2 (replicate 2 (0::int64)) = [[0, 0], [0, 0]]"
    by (simp add: numeral_2_eq_2)
  from no_columns_zero_matrix [OF wf n variants_mprof] no_columns_zero_matrix [OF wf n v] wf n
  show ?thesis
    unfolding s z by simp
qed

text \<open>
  C9. After any variant of \<open>my_func\<close> returns, every buffer that was in the store before
  the call is unchanged, so the input holds the elements it held before; the result lives
  in a buffer allocated by the call, at an address that was not in the store before and
  that differs from the address of the input's buffer.
\<close>

theorem input_unchanged_result_fresh:
  assumes "well_formed h a" and "f \<in> set (variants junk)"
  shows "\<exists>s r. f h a = Inr (s, r) \<and> take (length h) s = h \<and> tolist s a = tolist h a \<and>
           base r = length h \<and> base r < length s \<and> base r \<noteq> base a"
proof -
  have a: "base a < length h"
    using assms(1) by (simp add: well_formed_def)
  from variant_result [OF assms] obtain temps where
    res: "f h a = Inr (h @ gram_buffer h a # temps, gram_result h a)" ..
  have "tolist (h @ gram_buffer h a # temps) a = tolist h a"
    by (rule tolist_old [OF a])
  with res a show ?thesis by simp
qed

text \<open>
  C9 on the example array, for the broadcast variant.
\<close>

theorem input_unchanged_result_fresh_witness:
  "well_formed example_store example_array \<and>
   (\<exists>s r. script_bcast_mprof_my_func example_store example_array = Inr (s, r) \<and>
      take 1 s = example_store \<and> tolist s example_array = [[1, 2, 3], [4, 5, 6]] \<and>
      base r = 1 \<and> base r < length s \<and> base r \<noteq> 0)"
proof -
  have v: "script_bcast_mprof_my_func \<in> set (variants (\<lambda>_. 0))"
    by (simp add: variants_def strategies_def)
  have l: "length example_store = 1" "base example_array = 0"
    by (simp_all add: example_store_def example_array_def)
  have t: "tolist example_store example_array = [[1, 2, 3], [4, 5, 6]]"
    by code_simp
  from input_unchanged_result_fresh [OF example_well_formed v] example_well_formed
  show ?thesis
    unfolding l t by simp
qed

text \<open>
  C10. In \<open>my_script.py\<close> the result is allocated uninitialised, and the two loops assign
  every cell before \<open>my_func\<close> returns: whatever the allocation held, the store and the
  array returned are the same, and every element returned is a sum of products of
  input elements.
\<close>

theorem every_cell_assigned:
  assumes "well_formed h a"
  shows "my_script_my_func junk h a = my_script_my_func junk' h a \<and>
         my_script_my_func junk h a = Inr (h @ [gram_buffer h a], gram_result h a) \<and>
         result_list (my_script_my_func junk h a) = Some (gram_matrix h a)"
proof -
  have a: "base a < length h"
    using assms by (simp add: well_formed_def)
  show ?thesis
    by (simp only: my_script_result [OF a] result_list_gram)
qed

text \<open>
  C10 on the example array, with two different contents of the fresh buffer.
\<close>

theorem every_cell_assigned_witness:
  "well_formed example_store example_array \<and>
   my_script_my_func (\<lambda>_. 123) example_store example_array =
     my_script_my_func (\<lambda>_. 0) example_store example_array \<and>
   result_list (my_script_my_func (\<lambda>_. 123) example_store example_array) =
     Some [[14, 32], [32, 77]]"
  using every_cell_assigned [OF example_well_formed, of "\<lambda>_. 123" "\<lambda>_. 0"]
    example_well_formed
  unfolding example_gram_matrix by blast

end
